theory Spec2Isabelle
  imports Main "HOL-Library.Word" "HOL-Library.Sublist" "HOL-Library.AList"
begin

unbundle bit_operations_syntax

section \<open>qebil.tools.util: data model\<close>

text \<open>
  Python strings and byte strings are modelled as \<^typ>\<open>string\<close>; a character stands
  for a code point below 256. The functions of \<^verbatim>\<open>util.py\<close> act on the local
  file system, on the module logger and on the network. The file system, the log and
  the sequence of network requests issued so far form the \<open>world\<close> that every function
  takes and returns. What the network, the MD5 compression function and the PDF parser
  answer is not code of the repository: it is the \<open>env\<close> that every function takes as
  a parameter.
\<close>

datatype level = INFO | WARNING

record world =
  files :: "string \<rightharpoonup> string"
  log :: "(level \<times> string) list"
  net :: "string list"

text \<open>
  The exception classes that the functions of the module can meet.
  \<open>URLError\<close> is \<^verbatim>\<open>urllib.error.URLError\<close> with its subclasses: what urllib raises
  when the connection or the retrieval command fails, and for a transfer that ends short.
  \<open>OSError\<close> stands for the other operating-system errors, among them a connection reset
  or a timeout while the body of a transfer is read, which urllib passes on as they are.
  \<open>RequestException\<close> is the error of \<^verbatim>\<open>requests.get\<close>.
\<close>

datatype exn =
  URLError | RequestException | AttributeError | FileNotFoundError | PdfReadError | OSError

text \<open>
  A function of the module returns \<^verbatim>\<open>False\<close> or a string where it returns a checksum.
\<close>

datatype py_result = PyFalse | PyStr string

fun truthy :: "py_result \<Rightarrow> bool" where
  "truthy PyFalse = False"
| "truthy (PyStr s) = (s \<noteq> [])"

record response =
  status_code :: nat
  resp_text :: string

datatype PageObject = PageObject (page_text: string)

text \<open>
  The outcome of one \<^verbatim>\<open>urlretrieve\<close>: the bytes fetched, or the exception raised together
  with what had been written to the destination before (\<^verbatim>\<open>ContentTooShortError\<close>, a
  \<^verbatim>\<open>URLError\<close>, is raised after a partial file has been written).
\<close>

datatype fetch = Fetched string | FetchError exn "string option"

record env =
  md5 :: "string \<Rightarrow> 128 word"
  urlopen :: "string \<Rightarrow> string \<Rightarrow> fetch"
  tmp_name :: "string \<Rightarrow> string"
  requests_get :: "string \<Rightarrow> exn + response"
  PdfFileReader :: "string \<Rightarrow> exn + PageObject list"

definition logger_info :: "string \<Rightarrow> world \<Rightarrow> world" where
  "logger_info msg w = w\<lparr>log := log w @ [(INFO, msg)]\<rparr>"

definition logger_warning :: "string \<Rightarrow> world \<Rightarrow> world" where
  "logger_warning msg w = w\<lparr>log := log w @ [(WARNING, msg)]\<rparr>"

text \<open>
  The file system maps a path string to the content of the file. A path is the string as
  it is written: two spellings of one file are two keys, so the model says nothing about
  calls that name one file in two ways.
\<close>

definition isfile :: "world \<Rightarrow> string \<Rightarrow> bool" where
  "isfile w p = (files w p \<noteq> None)"

definition remove :: "string \<Rightarrow> world \<Rightarrow> world" where
  "remove p w = w\<lparr>files := (files w)(p := None)\<rparr>"

section \<open>hashlib: the hexadecimal digest\<close>

text \<open>
  \<^verbatim>\<open>hashlib.md5(data).hexdigest()\<close> prints the 128-bit digest as 32 hexadecimal
  digits, most significant first, the letters in lower case.
\<close>

definition hexchar :: "nat \<Rightarrow> char" where
  "hexchar n = ''0123456789abcdef'' ! (n mod 16)"

definition hexdigest :: "128 word \<Rightarrow> string" where
  "hexdigest d = map (\<lambda>i. hexchar (unat (drop_bit (4 * (31 - i)) d AND 15))) [0..<32]"

definition lowercase_hex :: "string \<Rightarrow> bool" where
  "lowercase_hex s = list_all (\<lambda>c. c \<in> set ''0123456789abcdef'') s"

section \<open>check\_download\_integrity\<close>

text \<open>
  \<^verbatim>\<open>
  if path.isfile(filepath):
      fq = open(filepath, "rb"); fq_contents = fq.read(); fq.close()
      local_checksum = hashlib.md5(fq_contents).hexdigest()
      if md5_value != local_checksum: return False
      else: return local_checksum
  else:
      logger.warning(filepath + " not found.")
      return False
  \<close>
\<close>

definition check_download_integrity ::
  "env \<Rightarrow> string \<Rightarrow> string \<Rightarrow> world \<Rightarrow> py_result \<times> world" where
  "check_download_integrity e filepath md5_value w =
     (case files w filepath of
        Some fq_contents \<Rightarrow>
          (let local_checksum = hexdigest (md5 e fq_contents)
           in if md5_value \<noteq> local_checksum then (PyFalse, w)
              else (PyStr local_checksum, w))
      | None \<Rightarrow> (PyFalse, logger_warning (filepath @ '' not found.'') w))"

section \<open>retrieve\_ftp\_file\<close>

text \<open>
  \<^verbatim>\<open>urlretrieve(url, dest)\<close>: one network request; on success the destination holds the
  bytes fetched, on failure it holds what had been written before the exception.
\<close>

definition urlretrieve :: "env \<Rightarrow> string \<Rightarrow> string \<Rightarrow> world \<Rightarrow> (exn + unit) \<times> world" where
  "urlretrieve e url dest w =
     (let w1 = w\<lparr>net := net w @ [url]\<rparr>
      in case urlopen e url dest of
           Fetched b \<Rightarrow> (Inr (), w1\<lparr>files := (files w1)(dest \<mapsto> b)\<rparr>)
         | FetchError x None \<Rightarrow> (Inl x, w1)
         | FetchError x (Some b) \<Rightarrow> (Inl x, w1\<lparr>files := (files w1)(dest \<mapsto> b)\<rparr>))"

text \<open>
  The second half of \<^verbatim>\<open>retrieve_ftp_file\<close>, lines 93 to 111. The variable \<^verbatim>\<open>local\<close> is
  still \<^verbatim>\<open>False\<close> whenever line 93 is reached, since the only assignment of \<^verbatim>\<open>True\<close>
  is followed by a \<^verbatim>\<open>return\<close>. Only \<^verbatim>\<open>urllib.error.URLError\<close> is caught; any other
  exception leaves the function.
\<close>

definition download :: "env \<Rightarrow> string \<Rightarrow> string \<Rightarrow> string \<Rightarrow> world \<Rightarrow> (exn + py_result) \<times> world" where
  "download e ftp_path filepath remote_checksum w =
     (case urlretrieve e (''ftp://'' @ ftp_path) filepath w of
        (Inr _, w1) \<Rightarrow>
          (let (checksum, w2) = check_download_integrity e filepath remote_checksum w1
           in (Inr checksum, w2))
      | (Inl URLError, w1) \<Rightarrow>
          (let w2 = logger_warning
                 (''Issue with urlretrieve for '' @ ''download of file:'' @ ''ftp://''
                    @ ftp_path @ '' to '' @ filepath) w1;
               w3 = (if isfile w2 ftp_path then remove ftp_path w2 else w2)
           in (Inr PyFalse, w3))
      | (Inl x, w1) \<Rightarrow> (Inl x, w1))"

definition retrieve_ftp_file ::
  "env \<Rightarrow> string \<Rightarrow> string \<Rightarrow> string \<Rightarrow> bool \<Rightarrow> world \<Rightarrow> (exn + py_result) \<times> world" where
  "retrieve_ftp_file e ftp_path filepath remote_checksum overwrite w =
     (if \<not> overwrite then
        if isfile w filepath then
          (let (checksum, w1) = check_download_integrity e filepath remote_checksum w
           in if truthy checksum then
                (Inr checksum,
                 logger_info (''Valid file found. Skipping download of file: '' @ ''ftp://''
                    @ ftp_path @ '' to '' @ filepath) w1)
              else
                download e ftp_path filepath remote_checksum
                  (logger_warning (''Local file found but invalid checksum.''
                     @ '' Downloading again: '' @ ''ftp://'' @ ftp_path @ '' to '' @ filepath) w1))
        else download e ftp_path filepath remote_checksum w
      else download e ftp_path filepath remote_checksum w)"

text \<open>Calling the downloader \<open>n\<close> times in a row with the same arguments.\<close>

fun retrieve_repeatedly ::
  "nat \<Rightarrow> env \<Rightarrow> string \<Rightarrow> string \<Rightarrow> string \<Rightarrow> bool \<Rightarrow> world \<Rightarrow> (exn + py_result) list \<times> world" where
  "retrieve_repeatedly 0 e ftp_path filepath remote_checksum overwrite w = ([], w)"
| "retrieve_repeatedly (Suc n) e ftp_path filepath remote_checksum overwrite w =
     (let (r, w1) = retrieve_ftp_file e ftp_path filepath remote_checksum overwrite w;
          (rs, w2) = retrieve_repeatedly n e ftp_path filepath remote_checksum overwrite w1
      in (r # rs, w2))"

section \<open>parse\_document\<close>

text \<open>
  \<^verbatim>\<open>re.split\<close> for a pattern that is an alternation of literals, none of them empty (both
  patterns of the module are): at each position the first alternative that matches
  there ends the current token and is skipped; a character that starts no match joins
  the current token.
\<close>

fun match_alt :: "string list \<Rightarrow> string \<Rightarrow> string option" where
  "match_alt [] s = None"
| "match_alt (d # ds) s = (if prefix d s then Some d else match_alt ds s)"

fun re_split_from :: "string list \<Rightarrow> string \<Rightarrow> string \<Rightarrow> string list" where
  "re_split_from ds cur [] = [cur]"
| "re_split_from ds cur (c # cs) =
     (case match_alt ds (c # cs) of
        Some d \<Rightarrow> cur # re_split_from ds [] (drop (length d - 1) cs)
      | None \<Rightarrow> re_split_from ds (cur @ [c]) cs)"

definition re_split :: "string list \<Rightarrow> string \<Rightarrow> string list" where
  "re_split ds s = re_split_from ds [] s"

text \<open>The pattern \<^verbatim>\<open>r"\; |\, |\. | |\n|\t"\<close> of the two PDF branches.\<close>

definition pdf_pattern :: "string list" where
  "pdf_pattern = [''; '', '', '', ''. '', '' '', [CHR 0x0A], [CHR 0x09]]"

text \<open>The pattern \<^verbatim>\<open>r"\;|\,|\.| |\n|\t|<|>|\/|\"|'"\<close> of the two other branches.\<close>

definition text_pattern :: "string list" where
  "text_pattern = ['';'', '','', ''.'', '' '', [CHR 0x0A], [CHR 0x09],
                   ''<'', ''>'', ''/'', [CHR 0x22], [CHR 0x27]]"

text \<open>
  \<^verbatim>\<open>open(path, "rb").read()\<close> and \<^verbatim>\<open>open(path, "r").read()\<close>: the content of the
  file, or \<^verbatim>\<open>FileNotFoundError\<close>. The decoding and the newline translation of the text
  mode are not modelled.
\<close>

definition open_read :: "world \<Rightarrow> string \<Rightarrow> exn + string" where
  "open_read w p = (case files w p of None \<Rightarrow> Inl FileNotFoundError | Some b \<Rightarrow> Inr b)"

text \<open>
  A page object of PyPDF2 has the method \<^verbatim>\<open>extractText\<close>. It has no attribute
  \<^verbatim>\<open>extractTexit\<close>, the name that line 196 calls: Python raises \<^verbatim>\<open>AttributeError\<close> there.
\<close>

definition extractText :: "PageObject \<Rightarrow> exn + string" where
  "extractText page_to_print = Inr (page_text page_to_print)"

definition extractTexit :: "PageObject \<Rightarrow> exn + string" where
  "extractTexit page_to_print = Inl AttributeError"

text \<open>
  \<^verbatim>\<open>
  for i in range(document.numPages):
      page_to_print = document.getPage(i)
      full_text += page_to_print.<extract>()
  \<close>
\<close>

fun extract_pages :: "(PageObject \<Rightarrow> exn + string) \<Rightarrow> PageObject list \<Rightarrow> string \<Rightarrow> exn + string" where
  "extract_pages extract [] full_text = Inr full_text"
| "extract_pages extract (page_to_print # document) full_text =
     (case extract page_to_print of
        Inl x \<Rightarrow> Inl x
      | Inr s \<Rightarrow> extract_pages extract document (full_text @ s))"

text \<open>\<^verbatim>\<open>filepath[-3:]\<close>: the last three characters, or the whole string when it is shorter.\<close>

definition last3 :: "string \<Rightarrow> string" where
  "last3 s = drop (length s - 3) s"

definition parse_document :: "env \<Rightarrow> string \<Rightarrow> world \<Rightarrow> (exn + string list) \<times> world" where
  "parse_document e filepath0 w =
     (let filepath = (if take 3 filepath0 = ''10.1'' then ''https://doi.org/'' @ filepath0
                      else filepath0)
      in if take 3 filepath = ''htt'' then
           (let w1 = w\<lparr>net := net w @ [filepath]\<rparr>
            in case requests_get e filepath of
                 Inl x \<Rightarrow> (Inl x, w1)
               | Inr request \<Rightarrow>
                   if status_code request = 200 then
                     if last3 filepath = ''pdf'' then
                       (let file_name = tmp_name e filepath
                        in case urlretrieve e filepath file_name w1 of
                             (Inl x, w2) \<Rightarrow> (Inl x, w2)
                           | (Inr _, w2) \<Rightarrow>
                               (case open_read w2 file_name of
                                  Inl x \<Rightarrow> (Inl x, w2)
                                | Inr b \<Rightarrow>
                                    (case PdfFileReader e b of
                                       Inl x \<Rightarrow> (Inl x, w2)
                                     | Inr document \<Rightarrow>
                                         (case extract_pages extractText document [] of
                                            Inl x \<Rightarrow> (Inl x, w2)
                                          | Inr full_text \<Rightarrow>
                                              (Inr (re_split pdf_pattern full_text), w2)))))
                     else (Inr (re_split text_pattern (resp_text request)), w1)
                   else (Inr [], w1))
         else if last3 filepath = ''pdf'' then
           (case open_read w filepath of
              Inl x \<Rightarrow> (Inl x, w)
            | Inr b \<Rightarrow>
                (case PdfFileReader e b of
                   Inl x \<Rightarrow> (Inl x, w)
                 | Inr document \<Rightarrow>
                     (case extract_pages extractTexit document [] of
                        Inl x \<Rightarrow> (Inl x, w)
                      | Inr full_text \<Rightarrow> (Inr (re_split pdf_pattern full_text), w))))
         else
           (case open_read w filepath of
              Inl x \<Rightarrow> (Inl x, w)
            | Inr full_text \<Rightarrow> (Inr (re_split text_pattern full_text), w)))"

section \<open>scrape\_ebi\_ids\<close>

text \<open>
  \<^verbatim>\<open>t.find(stem)\<close>: the index of the first occurrence of \<open>stem\<close> in \<open>t\<close>, or \<open>-1\<close>.
  \<^verbatim>\<open>stem in t\<close> is \<^term>\<open>sublist stem t\<close>.
\<close>

fun find_from :: "string \<Rightarrow> string \<Rightarrow> int \<Rightarrow> int" where
  "find_from stem [] i = (if stem = [] then i else - 1)"
| "find_from stem (c # cs) i = (if prefix stem (c # cs) then i else find_from stem cs (i + 1))"

definition py_find :: "string \<Rightarrow> string \<Rightarrow> int" where
  "py_find t stem = find_from stem t 0"

text \<open>\<^verbatim>\<open>str.isnumeric\<close> and \<^verbatim>\<open>str.isspace\<close> on the code points below 256.\<close>

definition isnumeric :: "char \<Rightarrow> bool" where
  "isnumeric c = (let n = (of_char c :: nat)
                  in (48 \<le> n \<and> n \<le> 57) \<or> n \<in> {178, 179, 185, 188, 189, 190})"

definition isspace :: "char \<Rightarrow> bool" where
  "isspace c = (let n = (of_char c :: nat)
                in (9 \<le> n \<and> n \<le> 13) \<or> (28 \<le> n \<and> n \<le> 32) \<or> n = 133 \<or> n = 160)"

text \<open>\<^verbatim>\<open>s.strip()\<close> and \<^verbatim>\<open>s.strip(chars)\<close> remove at both ends.\<close>

definition strip :: "(char \<Rightarrow> bool) \<Rightarrow> string \<Rightarrow> string" where
  "strip P s = rev (dropWhile P (rev (dropWhile P s)))"

text \<open>\<^verbatim>\<open>test_study.strip().strip(",").strip(".").strip("-")\<close>\<close>

definition found_study :: "string \<Rightarrow> string" where
  "found_study test_study =
     strip (\<lambda>c. c = CHR ''-'') (strip (\<lambda>c. c = CHR ''.'')
       (strip (\<lambda>c. c = CHR '','') (strip isspace test_study)))"

definition ebi_url :: "string \<Rightarrow> string" where
  "ebi_url test_study = ''https://www.ebi.ac.uk/ena/browser/view/'' @ test_study @ ''&display=xml''"

text \<open>
  \<^verbatim>\<open>{stem: t for stem in proj_id_stems for t in tokens if stem in t}\<close>: a Python dict
  keeps its keys in the order of their first insertion, and a later assignment to a key
  replaces the value in place, which is \<^const>\<open>AList.update\<close> on an association list.
  \<^verbatim>\<open>list(potential_tokens.values())\<close> are the values in that order.
\<close>

definition potential_dict :: "string list \<Rightarrow> string list \<Rightarrow> (string \<times> string) list" where
  "potential_dict proj_id_stems tokens =
     fold (\<lambda>stem. fold (\<lambda>t d. if sublist stem t then AList.update stem t d else d) tokens)
       proj_id_stems []"

definition potential_tokens :: "string list \<Rightarrow> string list \<Rightarrow> string list" where
  "potential_tokens proj_id_stems tokens = map snd (potential_dict proj_id_stems tokens)"

text \<open>
  Lines 237 to 245: the candidate \<^verbatim>\<open>test_study\<close> that a token gives for a stem, if any.
  \<^verbatim>\<open>
  start = t.find(stem)
  if start != -1 and len(t) >= start + len(stem) + 1:
      next_char = t[start + len(stem)]
      if next_char.isnumeric():
          test_study = t[start:]
  \<close>
\<close>

definition candidate :: "string \<Rightarrow> string \<Rightarrow> string option" where
  "candidate t stem =
     (let start = py_find t stem
      in if start \<noteq> - 1 \<and> int (length t) \<ge> start + int (length stem) + 1 then
           (let next_char = t ! nat (start + int (length stem))
            in if isnumeric next_char then Some (drop (nat start) t) else None)
         else None)"

text \<open>
  Lines 246 to 272, the body of the inner loop for a candidate: one request to the
  existence endpoint, an exception of which leaves the function; then the status and
  length tests, and the append or the warning.
\<close>

definition check_candidate ::
  "env \<Rightarrow> string \<Rightarrow> string list \<Rightarrow> world \<Rightarrow> (exn + string list) \<times> world" where
  "check_candidate e test_study found_ebi_ids w =
     (let w1 = w\<lparr>net := net w @ [ebi_url test_study]\<rparr>
      in case requests_get e (ebi_url test_study) of
           Inl x \<Rightarrow> (Inl x, w1)
         | Inr request2 \<Rightarrow>
             (let (found1, invalid) =
                    (if status_code request2 = 200 then
                       if length test_study \<ge> 6 then
                         (found_ebi_ids @ [found_study test_study], False)
                       else (found_ebi_ids, True)
                     else (found_ebi_ids, True))
              in if invalid then
                   (Inr found1,
                    logger_warning (''Found stem: '' @ test_study @ '' in '' @ test_study
                      @ '' but EBI project URL '' @ ebi_url test_study @ '' does not exist.'') w1)
                 else (Inr found1, w1)))"

definition scan_stem ::
  "env \<Rightarrow> string \<Rightarrow> string \<Rightarrow> string list \<Rightarrow> world \<Rightarrow> (exn + string list) \<times> world" where
  "scan_stem e t stem found_ebi_ids w =
     (case candidate t stem of
        None \<Rightarrow> (Inr found_ebi_ids, w)
      | Some test_study \<Rightarrow> check_candidate e test_study found_ebi_ids w)"

text \<open>\<^verbatim>\<open>for stem in proj_id_stems:\<close> for one token.\<close>

fun scan_token ::
  "env \<Rightarrow> string \<Rightarrow> string list \<Rightarrow> string list \<Rightarrow> world \<Rightarrow> (exn + string list) \<times> world" where
  "scan_token e t [] found_ebi_ids w = (Inr found_ebi_ids, w)"
| "scan_token e t (stem # stems) found_ebi_ids w =
     (case scan_stem e t stem found_ebi_ids w of
        (Inl x, w1) \<Rightarrow> (Inl x, w1)
      | (Inr found1, w1) \<Rightarrow> scan_token e t stems found1 w1)"

text \<open>\<^verbatim>\<open>for t in potential_tokens:\<close>\<close>

fun scan_tokens ::
  "env \<Rightarrow> string list \<Rightarrow> string list \<Rightarrow> string list \<Rightarrow> world \<Rightarrow> (exn + string list) \<times> world" where
  "scan_tokens e [] proj_id_stems found_ebi_ids w = (Inr found_ebi_ids, w)"
| "scan_tokens e (t # ts) proj_id_stems found_ebi_ids w =
     (case scan_token e t proj_id_stems found_ebi_ids w of
        (Inl x, w1) \<Rightarrow> (Inl x, w1)
      | (Inr found1, w1) \<Rightarrow> scan_tokens e ts proj_id_stems found1 w1)"

definition scrape_ebi_ids ::
  "env \<Rightarrow> string list \<Rightarrow> string list \<Rightarrow> world \<Rightarrow> (exn + string list) \<times> world" where
  "scrape_ebi_ids e tokens proj_id_stems w =
     scan_tokens e (potential_tokens proj_id_stems tokens) proj_id_stems [] w"

definition default_stems :: "string list" where
  "default_stems = [''PRJEB'', ''PRJNA'', ''ERP'', ''SRP'']"

section \<open>Notions of the specification\<close>

text \<open>
  The position \<open>i\<close> is the first occurrence of \<open>stem\<close> in \<open>t\<close>: the stem stands at
  \<open>i\<close> and at no earlier position.
\<close>

definition first_occurrence :: "string \<Rightarrow> string \<Rightarrow> nat \<Rightarrow> bool" where
  "first_occurrence stem t i =
     (i \<le> length t \<and> prefix stem (drop i t)
      \<and> list_all (\<lambda>j. \<not> prefix stem (drop j t)) [0..<i])"

text \<open>The most recently seen token that contains the stem: the last one in sequence order.\<close>

definition last_match :: "string \<Rightarrow> string list \<Rightarrow> string option" where
  "last_match stem tokens =
     (case rev (filter (sublist stem) tokens) of [] \<Rightarrow> None | t # _ \<Rightarrow> Some t)"

text \<open>The candidates that one token gives, one stem after the other.\<close>

definition candidates :: "string list \<Rightarrow> string \<Rightarrow> string list" where
  "candidates stems t =
     concat (map (\<lambda>stem. case candidate t stem of None \<Rightarrow> [] | Some c \<Rightarrow> [c]) stems)"

text \<open>
  A verified accession: a candidate that the existence endpoint confirms with status 200
  and that passes the length filter, in its stripped form.
\<close>

definition verified :: "env \<Rightarrow> string \<Rightarrow> string \<Rightarrow> string list" where
  "verified e t stem =
     (case candidate t stem of
        None \<Rightarrow> []
      | Some c \<Rightarrow>
          (case requests_get e (ebi_url c) of
             Inl x \<Rightarrow> []
           | Inr r \<Rightarrow> if status_code r = 200 \<and> 6 \<le> length c then [found_study c] else []))"

definition token_accessions :: "env \<Rightarrow> string list \<Rightarrow> string \<Rightarrow> string list" where
  "token_accessions e stems t = concat (map (verified e t) stems)"

text \<open>The existence endpoint answers every request with some status: no request raises.\<close>

definition answers :: "env \<Rightarrow> bool" where
  "answers e = (\<forall>url. \<exists>r. requests_get e url = Inr r)"

section \<open>Example environments\<close>

definition example_doc :: string where
  "example_doc = ''see PRJEB1234, and ERP5678.''"

text \<open>A network that is up: every transfer and every request succeeds.\<close>

definition env_up :: env where
  "env_up = \<lparr>md5 = (\<lambda>c. of_nat (length c)),
             urlopen = (\<lambda>url dest. Fetched example_doc),
             tmp_name = (\<lambda>url. ''/tmp/tmpq1w2e3''),
             requests_get = (\<lambda>url. Inr \<lparr>status_code = 200, resp_text = example_doc\<rparr>),
             PdfFileReader = (\<lambda>b. Inr [PageObject b])\<rparr>"

text \<open>A network that is down: transfers break after two bytes, requests answer 404.\<close>

definition env_down :: env where
  "env_down = \<lparr>md5 = (\<lambda>c. of_nat (length c)),
               urlopen = (\<lambda>url dest. FetchError URLError (Some ''AC'')),
               tmp_name = (\<lambda>url. ''/tmp/tmpq1w2e3''),
               requests_get = (\<lambda>url. Inr \<lparr>status_code = 404, resp_text = ''Not Found''\<rparr>),
               PdfFileReader = (\<lambda>b. Inl PdfReadError)\<rparr>"


definition world0 :: world where
  "world0 = \<lparr>files = [''reads.fastq.gz'' \<mapsto> ''ACGT'', ''mirror/reads.fastq.gz'' \<mapsto> ''TTTT'',
                      ''paper.pdf'' \<mapsto> example_doc],
             log = [], net = []\<rparr>"

section \<open>The hexadecimal digest\<close>

lemma length_hexdigest: "length (hexdigest d) = 32"
  by (simp add: hexdigest_def)

lemma hexchar_lower: "hexchar n \<in> set ''0123456789abcdef''"
  unfolding hexchar_def by (rule nth_mem) simp

lemma lowercase_hex_hexdigest: "lowercase_hex (hexdigest d)"
  unfolding lowercase_hex_def hexdigest_def list_all_iff using hexchar_lower by auto

lemma hexdigest_nonempty: "hexdigest d \<noteq> []"
  using length_hexdigest [of d] by auto

lemma hexdigest_4: "hexdigest 4 = ''00000000000000000000000000000004''"
  by code_simp

lemma md5_env_up: "md5 env_up c = of_nat (length c)"
  by (simp add: env_up_def)

section \<open>The checksum validator\<close>

text \<open>
  C3. For every path and expected digest, \<open>check_download_integrity\<close> returns the digest of
  the whole file, 32 lower-case hexadecimal digits, when it equals the expected value;
  it returns \<open>False\<close>, not the digest, when it differs; for a missing file it returns
  \<open>False\<close> and logs a warning. The function has no exception among its results.
\<close>

theorem check_download_integrity_sentinel:
  "(files w filepath = Some c \<and> hexdigest (md5 e c) = md5_value \<longrightarrow>
      check_download_integrity e filepath md5_value w = (PyStr (hexdigest (md5 e c)), w)
      \<and> length (hexdigest (md5 e c)) = 32 \<and> lowercase_hex (hexdigest (md5 e c)))
   \<and> (files w filepath = Some c \<and> hexdigest (md5 e c) \<noteq> md5_value \<longrightarrow>
      check_download_integrity e filepath md5_value w = (PyFalse, w))
   \<and> (files w filepath = None \<longrightarrow>
      check_download_integrity e filepath md5_value w
        = (PyFalse, w\<lparr>log := log w @ [(WARNING, filepath @ '' not found.'')]\<rparr>))"
  by (auto simp: check_download_integrity_def logger_warning_def length_hexdigest
      lowercase_hex_hexdigest)

theorem check_download_integrity_sentinel_witness:
  "check_download_integrity env_up ''reads.fastq.gz'' ''00000000000000000000000000000004'' world0
     = (PyStr ''00000000000000000000000000000004'', world0)
   \<and> check_download_integrity env_up ''reads.fastq.gz'' ''d41d8cd98f00b204e9800998ecf8427e'' world0
     = (PyFalse, world0)
   \<and> check_download_integrity env_up ''absent.fastq.gz'' ''d41d8cd98f00b204e9800998ecf8427e'' world0
     = (PyFalse, world0\<lparr>log := log world0 @ [(WARNING, ''absent.fastq.gz not found.'')]\<rparr>)"
proof -
  have f: "files world0 ''reads.fastq.gz'' = Some ''ACGT''"
    and n: "files world0 ''absent.fastq.gz'' = None"
    by (simp_all add: world0_def)
  have d: "hexdigest (md5 env_up ''ACGT'') = ''00000000000000000000000000000004''"
    by (simp add: md5_env_up hexdigest_4)
  have d': "hexdigest (md5 env_up ''ACGT'') \<noteq> ''d41d8cd98f00b204e9800998ecf8427e''"
    unfolding d by simp
  show ?thesis
    using check_download_integrity_sentinel
        [of world0 "''reads.fastq.gz''" "''ACGT''" env_up "''00000000000000000000000000000004''"]
      check_download_integrity_sentinel
        [of world0 "''reads.fastq.gz''" "''ACGT''" env_up "''d41d8cd98f00b204e9800998ecf8427e''"]
      check_download_integrity_sentinel
        [of world0 "''absent.fastq.gz''" "''ACGT''" env_up "''d41d8cd98f00b204e9800998ecf8427e''"]
      f n d d'
    by simp
qed

section \<open>The downloader\<close>

text \<open>
  C1. With \<open>overwrite\<close> false, a destination that exists and a digest equal to the
  expected checksum, \<open>retrieve_ftp_file\<close> returns that checksum and issues no network
  request; the file system is unchanged, so every repetition of the call does the same:
  \<open>n\<close> calls in a row return the checksum \<open>n\<close> times, and all they change is the log,
  which gains one info line per call.
\<close>

theorem retrieve_ftp_file_skip_idempotent:
  assumes "\<not> overwrite" and "files w filepath = Some c"
    and "hexdigest (md5 e c) = remote_checksum"
  shows "retrieve_repeatedly n e ftp_path filepath remote_checksum overwrite w
     = (replicate n (Inr (PyStr remote_checksum)),
        w\<lparr>log := log w @ replicate n
           (INFO, ''Valid file found. Skipping download of file: ftp://''
                    @ ftp_path @ '' to '' @ filepath)\<rparr>)"
  using assms
proof (induction n arbitrary: w)
  case 0
  then show ?case by simp
next
  case (Suc n)
  let ?m = "(INFO, ''Valid file found. Skipping download of file: ftp://''
                    @ ftp_path @ '' to '' @ filepath)"
  have one: "retrieve_ftp_file e ftp_path filepath remote_checksum overwrite w
     = (Inr (PyStr remote_checksum), w\<lparr>log := log w @ [?m]\<rparr>)"
    using Suc.prems hexdigest_nonempty [of "md5 e c"]
    by (auto simp: retrieve_ftp_file_def isfile_def check_download_integrity_def logger_info_def)
  have "files (w\<lparr>log := log w @ [?m]\<rparr>) filepath = Some c"
    using Suc.prems by simp
  from Suc.IH [OF Suc.prems(1) this Suc.prems(3)] one
  show ?case by (simp add: replicate_app_Cons_same)
qed

theorem retrieve_ftp_file_skip_idempotent_witness:
  "retrieve_repeatedly 2 env_up ''ftp.sra.ebi.ac.uk/reads.fastq.gz'' ''reads.fastq.gz''
      ''00000000000000000000000000000004'' False world0
     = ([Inr (PyStr ''00000000000000000000000000000004''),
         Inr (PyStr ''00000000000000000000000000000004'')],
        world0\<lparr>log := log world0 @
           [(INFO, ''Valid file found. Skipping download of file: ftp://ftp.sra.ebi.ac.uk/reads.fastq.gz to reads.fastq.gz''),
            (INFO, ''Valid file found. Skipping download of file: ftp://ftp.sra.ebi.ac.uk/reads.fastq.gz to reads.fastq.gz'')]\<rparr>)"
proof -
  have f: "files world0 ''reads.fastq.gz'' = Some ''ACGT''"
    by (simp add: world0_def)
  have d: "hexdigest (md5 env_up ''ACGT'') = ''00000000000000000000000000000004''"
    by (simp add: md5_env_up hexdigest_4)
  have o: "\<not> False" by simp
  have r: "replicate 2 x = [x, x]" for x :: 'a
    by (simp add: numeral_2_eq_2)
  show ?thesis
    using retrieve_ftp_file_skip_idempotent [OF o f d, of 2 "''ftp.sra.ebi.ac.uk/reads.fastq.gz''"]
    by (simp add: r)
qed




section \<open>The document tokenizer\<close>

text \<open>
  C8. A reference that starts with \<^verbatim>\<open>htt\<close> is remote. When its HTTP GET answers with a
  status other than 200, \<open>parse_document\<close> returns the empty token list and raises nothing;
  the single request is all it did.
\<close>

theorem parse_document_non_200:
  assumes "take 3 filepath = ''htt''" and "requests_get e filepath = Inr request"
    and "status_code request \<noteq> 200"
  shows "parse_document e filepath w = (Inr [], w\<lparr>net := net w @ [filepath]\<rparr>)"
proof -
  have "take 3 filepath \<noteq> ''10.1''"
    using assms(1) by simp
  then show ?thesis
    using assms by (simp add: parse_document_def)
qed

theorem parse_document_non_200_witness:
  "parse_document env_down ''https://example.org/paper.html'' world0
     = (Inr [], world0\<lparr>net := net world0 @ [''https://example.org/paper.html'']\<rparr>)"
proof -
  have t: "take 3 ''https://example.org/paper.html'' = ''htt''"
    by simp
  have r: "requests_get env_down ''https://example.org/paper.html''
      = Inr \<lparr>status_code = 404, resp_text = ''Not Found''\<rparr>"
    by (simp add: env_down_def)
  have n: "status_code \<lparr>status_code = 404, resp_text = ''Not Found''\<rparr> \<noteq> 200"
    by simp
  show ?thesis
    by (rule parse_document_non_200 [OF t r n])
qed

text \<open>
  C4. The claim is that a reference starting with the DOI prefix is rewritten to
  \<^verbatim>\<open>https://doi.org/<doi>\<close> and then fetched. Line 167 compares the three-character
  slice \<^verbatim>\<open>filepath[0:3]\<close> with the four-character string \<^verbatim>\<open>"10.1"\<close>, which never
  holds: the DOI \<^verbatim>\<open>10.1000/182\<close> is not rewritten, no request is issued, and the
  reference is opened as a local path.
\<close>

theorem parse_document_doi_not_rewritten:
  "fst (parse_document env_up ''10.1000/182'' world0) = Inl FileNotFoundError
   \<and> net (snd (parse_document env_up ''10.1000/182'' world0)) = []"
  by (simp add: parse_document_def last3_def open_read_def world0_def)

text \<open>
  C9. The claim is that a local PDF yields the tokens that the same PDF yields when it is
  fetched. Line 196 calls \<^verbatim>\<open>extractTexit\<close>, which no page object has: the local file
  \<^verbatim>\<open>paper.pdf\<close> raises \<^verbatim>\<open>AttributeError\<close>, where the same bytes fetched from a URL
  give their four tokens.
\<close>

theorem parse_document_local_pdf_raises:
  "files world0 ''paper.pdf'' = Some example_doc
   \<and> urlopen env_up ''https://example.org/paper.pdf'' (tmp_name env_up ''https://example.org/paper.pdf'')
       = Fetched example_doc
   \<and> fst (parse_document env_up ''paper.pdf'' world0) = Inl AttributeError
   \<and> fst (parse_document env_up ''https://example.org/paper.pdf'' world0)
       = Inr [''see'', ''PRJEB1234'', ''and'', ''ERP5678.'']"
  by code_simp

section \<open>The accession scanner: first occurrences and candidates\<close>

lemma find_from_notfound: "0 \<le> k \<Longrightarrow> (find_from stem t k = - 1) = (\<not> sublist stem t)"
proof (induction t arbitrary: k)
  case Nil then show ?case by auto
next
  case (Cons c cs)
  have "(find_from stem cs (k + 1) = - 1) = (\<not> sublist stem cs)"
    using Cons.IH [of "k + 1"] Cons.prems by simp
  with Cons.prems show ?case by (auto simp: sublist_Cons_right)
qed

lemma find_from_ge: "0 \<le> k \<Longrightarrow> find_from stem t k \<noteq> - 1 \<Longrightarrow> k \<le> find_from stem t k"
proof (induction t arbitrary: k)
  case Nil then show ?case by (auto split: if_splits)
next
  case (Cons c cs)
  show ?case
  proof (cases "prefix stem (c # cs)")
    case True then show ?thesis by simp
  next
    case False
    then have eq: "find_from stem (c # cs) k = find_from stem cs (k + 1)" by simp
    have "k + 1 \<le> find_from stem cs (k + 1)"
      using Cons.IH [of "k + 1"] Cons.prems eq by simp
    with eq show ?thesis by simp
  qed
qed

lemma first_occurrence_alt:
  "first_occurrence stem t i =
     (i \<le> length t \<and> prefix stem (drop i t) \<and> (\<forall>j<i. \<not> prefix stem (drop j t)))"
  by (auto simp: first_occurrence_def list_all_iff)

lemma first_occurrence_0: "first_occurrence stem t 0 = prefix stem t"
  by (simp add: first_occurrence_alt)

lemma first_occurrence_Suc:
  "first_occurrence stem (c # cs) (Suc i) = (\<not> prefix stem (c # cs) \<and> first_occurrence stem cs i)"
  unfolding first_occurrence_alt by (auto simp: less_Suc_eq_0_disj)

lemma find_from_first:
  "0 \<le> k \<Longrightarrow> (find_from stem t k = k + int i) = first_occurrence stem t i"
proof (induction t arbitrary: k i)
  case Nil
  then show ?case by (auto simp: first_occurrence_alt)
next
  case (Cons c cs)
  show ?case
  proof (cases "prefix stem (c # cs)")
    case True
    then show ?thesis by (cases i) (auto simp: first_occurrence_0 first_occurrence_Suc)
  next
    case False
    show ?thesis
    proof (cases i)
      case 0
      have "find_from stem cs (k + 1) \<noteq> k"
        using find_from_ge [of "k + 1" stem cs] Cons.prems by auto
      with False 0 show ?thesis by (simp add: first_occurrence_0)
    next
      case (Suc j)
      have a: "k + int i = (k + 1) + int j" using Suc by simp
      have "(find_from stem cs (k + 1) = (k + 1) + int j) = first_occurrence stem cs j"
        using Cons.IH [of "k + 1" j] Cons.prems by simp
      then have "(find_from stem (c # cs) k = k + int i) = first_occurrence stem cs j"
        using False unfolding a by simp
      with False Suc show ?thesis by (simp add: first_occurrence_Suc)
    qed
  qed
qed

lemma py_find_first: "(py_find t stem = int i) = first_occurrence stem t i"
  using find_from_first [of 0 stem t i] by (simp add: py_find_def)

lemma py_find_notfound: "(py_find t stem = - 1) = (\<not> sublist stem t)"
  using find_from_notfound [of 0 stem t] by (simp add: py_find_def)

lemma py_find_cases: "py_find t stem = - 1 \<or> (\<exists>i. py_find t stem = int i)"
proof (cases "py_find t stem = - 1")
  case True then show ?thesis by simp
next
  case False
  then have "0 \<le> py_find t stem"
    using find_from_ge [of 0 stem t] by (simp add: py_find_def)
  then show ?thesis using nonneg_int_cases by blast
qed

lemma first_occurrence_unique:
  "first_occurrence stem t i \<Longrightarrow> first_occurrence stem t j \<Longrightarrow> i = j"
proof -
  assume "first_occurrence stem t i" "first_occurrence stem t j"
  then have "py_find t stem = int i" "py_find t stem = int j"
    by (simp_all add: py_find_first)
  then show "i = j" by simp
qed

lemma candidate_found:
  assumes "first_occurrence stem t i"
  shows "candidate t stem =
     (if i + length stem < length t \<and> isnumeric (t ! (i + length stem))
      then Some (drop i t) else None)"
proof -
  have p: "py_find t stem = int i" using assms by (simp add: py_find_first)
  have idx: "nat (int i + int (length stem)) = i + length stem" by simp
  show ?thesis unfolding candidate_def p Let_def idx by auto
qed

lemma candidate_notfound:
  assumes "\<not> sublist stem t"
  shows "candidate t stem = None"
  using assms by (simp add: candidate_def py_find_notfound)

lemma sublist_first_occurrence: "sublist stem t = (\<exists>i. first_occurrence stem t i)"
proof
  assume "sublist stem t"
  then have "py_find t stem \<noteq> - 1" by (simp add: py_find_notfound)
  then obtain i where "py_find t stem = int i" using py_find_cases by blast
  then show "\<exists>i. first_occurrence stem t i" using py_find_first by blast
next
  assume "\<exists>i. first_occurrence stem t i"
  then obtain i where "py_find t stem = int i" using py_find_first by blast
  then have "py_find t stem \<noteq> - 1" by simp
  then show "sublist stem t" by (simp add: py_find_notfound)
qed

lemma candidate_iff:
  "(candidate t stem = Some c) =
     (\<exists>i. first_occurrence stem t i \<and> i + length stem < length t
        \<and> isnumeric (t ! (i + length stem)) \<and> c = drop i t)"
proof
  assume c: "candidate t stem = Some c"
  then have "sublist stem t" using candidate_notfound by fastforce
  then obtain i where fo: "first_occurrence stem t i"
    using sublist_first_occurrence by blast
  from c show "\<exists>i. first_occurrence stem t i \<and> i + length stem < length t
        \<and> isnumeric (t ! (i + length stem)) \<and> c = drop i t"
    unfolding candidate_found [OF fo] using fo by (intro exI [of _ i]) (simp split: if_splits)
next
  assume "\<exists>i. first_occurrence stem t i \<and> i + length stem < length t
        \<and> isnumeric (t ! (i + length stem)) \<and> c = drop i t"
  then obtain i where fo: "first_occurrence stem t i" and r: "i + length stem < length t"
        "isnumeric (t ! (i + length stem))" "c = drop i t" by blast
  show "candidate t stem = Some c"
    unfolding candidate_found [OF fo] using r by simp
qed

section \<open>The accession scanner: the intermediate mapping\<close>

lemma last_match_Nil: "last_match stem [] = None"
  by (simp add: last_match_def)

lemma last_match_snoc:
  "last_match stem (ts @ [t]) = (if sublist stem t then Some t else last_match stem ts)"
  by (simp add: last_match_def)

lemma inner_fold_map_of:
  "map_of (fold (\<lambda>t d. if sublist stem t then AList.update stem t d else d) tokens d)
     = (case last_match stem tokens of None \<Rightarrow> map_of d | Some t \<Rightarrow> (map_of d)(stem \<mapsto> t))"
proof (induction tokens rule: rev_induct)
  case Nil then show ?case by (simp add: last_match_Nil)
next
  case (snoc t ts)
  then show ?case
    by (auto simp: last_match_snoc update_conv' split: option.splits)
qed

lemma inner_fold_distinct:
  "distinct (map fst d) \<Longrightarrow>
   distinct (map fst (fold (\<lambda>t d. if sublist stem t then AList.update stem t d else d) tokens d))"
  by (induction tokens arbitrary: d) (auto simp: distinct_update)

lemma outer_fold_map_of:
  "map_of (fold (\<lambda>stem. fold (\<lambda>t d. if sublist stem t then AList.update stem t d else d) tokens)
       stems d) s
     = (if s \<in> set stems
        then (case last_match s tokens of None \<Rightarrow> map_of d s | Some t \<Rightarrow> Some t)
        else map_of d s)"
proof (induction stems arbitrary: d rule: rev_induct)
  case Nil then show ?case by simp
next
  case (snoc x xs)
  show ?case
    using snoc [of d] by (auto simp: inner_fold_map_of split: option.splits)
qed

lemma outer_fold_distinct:
  "distinct (map fst d) \<Longrightarrow>
   distinct (map fst (fold (\<lambda>stem. fold (\<lambda>t d. if sublist stem t then AList.update stem t d else d) tokens)
       stems d))"
  by (induction stems arbitrary: d) (auto simp: inner_fold_distinct)

lemma map_of_potential_dict:
  "map_of (potential_dict stems tokens) s = (if s \<in> set stems then last_match s tokens else None)"
  by (simp add: potential_dict_def outer_fold_map_of split: option.splits)

lemma distinct_potential_dict: "distinct (map fst (potential_dict stems tokens))"
  by (simp add: potential_dict_def outer_fold_distinct)

lemma count_values:
  "distinct (map fst d) \<Longrightarrow> count_list (map snd d) v = card {k. map_of d k = Some v}"
proof (induction d)
  case Nil then show ?case by simp
next
  case (Cons p d)
  obtain k u where p: "p = (k, u)" by (cases p)
  have fin: "finite {k'. map_of d k' = Some v}"
    by (rule finite_subset [of _ "dom (map_of d)"]) (auto simp: finite_dom_map_of)
  have notin: "k \<notin> {k'. map_of d k' = Some v}"
    using Cons.prems p by (auto dest: map_of_SomeD simp: image_iff) 
  have IH: "count_list (map snd d) v = card {k'. map_of d k' = Some v}"
    using Cons by simp
  show ?case
  proof (cases "u = v")
    case True
    have "{k'. map_of (p # d) k' = Some v} = insert k {k'. map_of d k' = Some v}"
      using p True by auto
    then show ?thesis using fin notin IH p True by simp
  next
    case False
    have "{k'. map_of (p # d) k' = Some v} = {k'. map_of d k' = Some v}"
      using p False notin by auto
    then show ?thesis using IH p False by simp
  qed
qed

lemma count_potential_tokens:
  "count_list (potential_tokens stems tokens) t
     = card {s \<in> set stems. last_match s tokens = Some t}"
proof -
  have "{k. map_of (potential_dict stems tokens) k = Some t}
        = {s \<in> set stems. last_match s tokens = Some t}"
    by (auto simp: map_of_potential_dict split: if_splits)
  then show ?thesis
    unfolding potential_tokens_def
    using count_values [OF distinct_potential_dict, of stems tokens t] by simp
qed


section \<open>The accession scanner: the two loops\<close>

lemma check_candidate_200:
  assumes "requests_get e (ebi_url c) = Inr r" "status_code r = 200"
  shows "check_candidate e c found w =
     (if 6 \<le> length c
      then (Inr (found @ [found_study c]), w\<lparr>net := net w @ [ebi_url c]\<rparr>)
      else (Inr found,
            w\<lparr>net := net w @ [ebi_url c],
              log := log w @ [(WARNING, ''Found stem: '' @ c @ '' in '' @ c
                  @ '' but EBI project URL '' @ ebi_url c @ '' does not exist.'')]\<rparr>))"
  using assms by (simp add: check_candidate_def logger_warning_def)

lemma check_candidate_fst:
  assumes "requests_get e (ebi_url c) = Inr r"
  shows "fst (check_candidate e c found w) =
     Inr (found @ (if status_code r = 200 \<and> 6 \<le> length c then [found_study c] else []))"
  using assms by (simp add: check_candidate_def)

lemma check_candidate_net:
  "net (snd (check_candidate e c found w)) = net w @ [ebi_url c]"
  by (cases "requests_get e (ebi_url c)") (simp_all add: check_candidate_def logger_warning_def Let_def)

lemma scan_stem_fst:
  assumes "answers e"
  shows "fst (scan_stem e t stem found w) = Inr (found @ verified e t stem)"
proof (cases "candidate t stem")
  case None
  then show ?thesis by (simp add: scan_stem_def verified_def)
next
  case (Some c)
  obtain r where r: "requests_get e (ebi_url c) = Inr r"
    using assms unfolding answers_def by blast
  show ?thesis using Some r check_candidate_fst [OF r]
    by (simp add: scan_stem_def verified_def)
qed

lemma scan_stem_net:
  "net (snd (scan_stem e t stem found w))
     = net w @ map ebi_url (case candidate t stem of None \<Rightarrow> [] | Some c \<Rightarrow> [c])"
  by (simp add: scan_stem_def check_candidate_net split: option.splits)

lemma scan_token_fst:
  assumes "answers e"
  shows "fst (scan_token e t stems found w) = Inr (found @ concat (map (verified e t) stems))"
proof (induction stems arbitrary: found w)
  case Nil then show ?case by simp
next
  case (Cons stem stems)
  obtain r w1 where s: "scan_stem e t stem found w = (r, w1)" by (cases "scan_stem e t stem found w")
  then have "r = Inr (found @ verified e t stem)"
    using scan_stem_fst [OF assms, of t stem found w] by simp
  with s Cons.IH show ?case by simp
qed

lemma scan_token_net:
  assumes "answers e"
  shows "net (snd (scan_token e t stems found w)) = net w @ map ebi_url (candidates stems t)"
proof (induction stems arbitrary: found w)
  case Nil then show ?case by (simp add: candidates_def)
next
  case (Cons stem stems)
  obtain r w1 where s: "scan_stem e t stem found w = (r, w1)" by (cases "scan_stem e t stem found w")
  then have r: "r = Inr (found @ verified e t stem)"
    using scan_stem_fst [OF assms, of t stem found w] by simp
  have n: "net w1 = net w @ map ebi_url (case candidate t stem of None \<Rightarrow> [] | Some c \<Rightarrow> [c])"
    using scan_stem_net [of e t stem found w] s by simp
  show ?case using s r n Cons.IH [of "found @ verified e t stem" w1]
    by (simp add: candidates_def)
qed

lemma scan_tokens_fst:
  assumes "answers e"
  shows "fst (scan_tokens e ts stems found w)
     = Inr (found @ concat (map (\<lambda>t. concat (map (verified e t) stems)) ts))"
proof (induction ts arbitrary: found w)
  case Nil then show ?case by simp
next
  case (Cons t ts)
  obtain r w1 where s: "scan_token e t stems found w = (r, w1)" by (cases "scan_token e t stems found w")
  then have "r = Inr (found @ concat (map (verified e t) stems))"
    using scan_token_fst [OF assms, of t stems found w] by simp
  with s Cons.IH show ?case by simp
qed

lemma scan_tokens_net:
  assumes "answers e"
  shows "net (snd (scan_tokens e ts stems found w))
     = net w @ map ebi_url (concat (map (candidates stems) ts))"
proof (induction ts arbitrary: found w)
  case Nil then show ?case by simp
next
  case (Cons t ts)
  obtain r w1 where s: "scan_token e t stems found w = (r, w1)" by (cases "scan_token e t stems found w")
  then have r: "r = Inr (found @ concat (map (verified e t) stems))"
    using scan_token_fst [OF assms, of t stems found w] by simp
  have n: "net w1 = net w @ map ebi_url (candidates stems t)"
    using scan_token_net [OF assms, of t stems found w] s by simp
  show ?case using s r n Cons.IH [of "found @ concat (map (verified e t) stems)" w1] by simp
qed

lemma count_list_concat_ge:
  "count_list ts t * count_list (f t) a \<le> count_list (concat (map f ts)) a"
  by (induction ts) auto

lemma two_stems:
  assumes "s1 \<in> set stems" "s2 \<in> set stems" "s1 \<noteq> s2"
    "last_match s1 tokens = Some t" "last_match s2 tokens = Some t"
  shows "2 \<le> card {s \<in> set stems. last_match s tokens = Some t}"
proof -
  have "{s1, s2} \<subseteq> {s \<in> set stems. last_match s tokens = Some t}"
    using assms by simp
  then have "card {s1, s2} \<le> card {s \<in> set stems. last_match s tokens = Some t}"
    by (intro card_mono) simp_all
  then show ?thesis using assms(3) by simp
qed

section \<open>The accession scanner: the claims\<close>



text \<open>
  C6. For a token and a stem, a candidate is formed exactly when the stem has a first
  occurrence in the token, a character stands right after it and that character is
  numeric; the candidate is the suffix of the token from that occurrence. When the
  character after the stem is not numeric, the step for this stem changes nothing and
  issues no request, whatever the endpoint would answer. The requests that
  \<open>scrape_ebi_ids\<close> issues are those for the candidates of the surviving tokens, in order.
\<close>

theorem candidate_formed_iff:
  "(candidate t stem = Some c)
     = (\<exists>i. first_occurrence stem t i \<and> i + length stem < length t
          \<and> isnumeric (t ! (i + length stem)) \<and> c = drop i t)
   \<and> (first_occurrence stem t i \<and> i + length stem < length t
        \<and> \<not> isnumeric (t ! (i + length stem))
      \<longrightarrow> candidate t stem = None \<and> scan_stem e t stem found w = (Inr found, w))
   \<and> (answers e \<longrightarrow>
        net (snd (scrape_ebi_ids e tokens stems w))
          = net w @ map ebi_url (concat (map (candidates stems) (potential_tokens stems tokens))))"
proof -
  have b: "candidate t stem = None \<and> scan_stem e t stem found w = (Inr found, w)"
    if "first_occurrence stem t i" "i + length stem < length t"
      "\<not> isnumeric (t ! (i + length stem))"
    using candidate_found [OF that(1)] that(3) by (simp add: scan_stem_def)
  show ?thesis
    using candidate_iff [of t stem c] b scan_tokens_net [of e]
    by (simp add: scrape_ebi_ids_def)
qed

theorem candidate_formed_iff_witness:
  "candidate ''xxPRJEB12345,'' ''PRJEB'' = Some ''PRJEB12345,''
   \<and> scan_stem env_down ''xPRJEBa1'' ''PRJEB'' [] world0 = (Inr [], world0)
   \<and> scan_stem env_up ''xPRJEBa1'' ''PRJEB'' [] world0 = (Inr [], world0)
   \<and> net (snd (scrape_ebi_ids env_up [''xxPRJEB12345,'', ''ERP1''] default_stems world0))
       = [''https://www.ebi.ac.uk/ena/browser/view/PRJEB12345,&display=xml'',
          ''https://www.ebi.ac.uk/ena/browser/view/ERP1&display=xml'']"
proof -
  have f: "first_occurrence ''PRJEB'' ''xxPRJEB12345,'' 2"
    and g: "isnumeric (''xxPRJEB12345,'' ! (2 + length ''PRJEB''))"
    and f': "first_occurrence ''PRJEB'' ''xPRJEBa1'' 1"
    and g': "\<not> isnumeric (''xPRJEBa1'' ! (1 + length ''PRJEB''))"
    by code_simp+
  have ex: "\<exists>i. first_occurrence ''PRJEB'' ''xxPRJEB12345,'' i
      \<and> i + length ''PRJEB'' < length ''xxPRJEB12345,''
      \<and> isnumeric (''xxPRJEB12345,'' ! (i + length ''PRJEB''))
      \<and> ''PRJEB12345,'' = drop i ''xxPRJEB12345,''"
    using f g by (intro exI [of _ 2]) simp
  have a: "answers env_up"
    by (simp add: answers_def env_up_def)
  have c: "map ebi_url (concat (map (candidates default_stems)
             (potential_tokens default_stems [''xxPRJEB12345,'', ''ERP1''])))
       = [''https://www.ebi.ac.uk/ena/browser/view/PRJEB12345,&display=xml'',
          ''https://www.ebi.ac.uk/ena/browser/view/ERP1&display=xml'']"
    by code_simp
  have n: "net world0 = []"
    by (simp add: world0_def)
  have l: "(1::nat) + length ''PRJEB'' < length ''xPRJEBa1''"
    by simp
  show ?thesis
    using candidate_formed_iff [of "''xxPRJEB12345,''" "''PRJEB''" "''PRJEB12345,''" 1
        env_up "[]" world0 "[''xxPRJEB12345,'', ''ERP1'']" default_stems]
      candidate_formed_iff [of "''xPRJEBa1''" "''PRJEB''" "''''" 1 env_down "[]" world0 "[]" "[]"]
      candidate_formed_iff [of "''xPRJEBa1''" "''PRJEB''" "''''" 1 env_up "[]" world0 "[]" "[]"]
      ex f' g' l a c n
    by simp
qed

text \<open>
  C7, amended. For a candidate whose existence check answers 200, the length filter reads
  the candidate as extracted, before any stripping: a candidate of fewer than 6 characters
  is rejected, nothing is added and a warning is logged; a candidate of 6 characters or
  more is added in its stripped form, which may be shorter than 6 characters.
\<close>

theorem scan_stem_length_filter:
  assumes "candidate t stem = Some c" and "requests_get e (ebi_url c) = Inr r"
    and "status_code r = 200"
  shows "scan_stem e t stem found w =
     (if 6 \<le> length c
      then (Inr (found @ [found_study c]), w\<lparr>net := net w @ [ebi_url c]\<rparr>)
      else (Inr found,
            w\<lparr>net := net w @ [ebi_url c],
              log := log w @ [(WARNING, ''Found stem: '' @ c @ '' in '' @ c
                  @ '' but EBI project URL '' @ ebi_url c @ '' does not exist.'')]\<rparr>))"
  using assms(1) check_candidate_200 [OF assms(2, 3)] by (simp add: scan_stem_def)

theorem scan_stem_length_filter_witness:
  "fst (scan_stem env_up ''ERP1'' ''ERP'' [] world0) = Inr []
   \<and> fst (scan_stem env_up ''ERP12,'' ''ERP'' [] world0) = Inr [''ERP12'']"
proof -
  have c: "candidate ''ERP1'' ''ERP'' = Some ''ERP1''"
    and c': "candidate ''ERP12,'' ''ERP'' = Some ''ERP12,''"
    and s: "found_study ''ERP12,'' = ''ERP12''"
    by code_simp+
  have r: "requests_get env_up (ebi_url x) = Inr \<lparr>status_code = 200, resp_text = example_doc\<rparr>"
    for x
    by (simp add: env_up_def)
  have k: "status_code \<lparr>status_code = 200, resp_text = example_doc\<rparr> = 200"
    by simp
  show ?thesis
    using scan_stem_length_filter [OF c r k, of "[]" world0]
      scan_stem_length_filter [OF c' r k, of "[]" world0] s
    by simp
qed

text \<open>
  As stated, with the length taken after stripping, the claim fails: the candidate
  \<^verbatim>\<open>ERP12,\<close> has 6 characters, its stripped form \<^verbatim>\<open>ERP12\<close> has 5, and the scanner
  returns it.
\<close>

theorem scrape_ebi_ids_short_after_strip_counterexample:
  "candidate ''ERP12,'' ''ERP'' = Some ''ERP12,''
   \<and> map_sum id status_code (requests_get env_up (ebi_url ''ERP12,'')) = Inr 200
   \<and> length (found_study ''ERP12,'') < 6
   \<and> fst (scrape_ebi_ids env_up [''ERP12,''] default_stems world0) = Inr [found_study ''ERP12,'']"
  by code_simp

text \<open>
  C10. When one token is the last match of two distinct stems, it stands among the
  surviving tokens once per stem whose last match it is, so at least twice; the result of
  \<open>scrape_ebi_ids\<close> is the concatenation, over the surviving tokens, of what each token
  gives against every stem; so every accession of that token stands in the result at
  least twice as often as the token gives it.
\<close>

theorem scrape_ebi_ids_duplicates:
  assumes "answers e" and "s1 \<in> set stems" and "s2 \<in> set stems" and "s1 \<noteq> s2"
    and "last_match s1 tokens = Some t" and "last_match s2 tokens = Some t"
  shows "count_list (potential_tokens stems tokens) t
       = card {s \<in> set stems. last_match s tokens = Some t}
    \<and> 2 \<le> count_list (potential_tokens stems tokens) t
    \<and> fst (scrape_ebi_ids e tokens stems w)
       = Inr (concat (map (token_accessions e stems) (potential_tokens stems tokens)))
    \<and> (\<forall>a. 2 * count_list (token_accessions e stems t) a
         \<le> count_list (concat (map (token_accessions e stems) (potential_tokens stems tokens))) a)"
proof -
  have n: "count_list (potential_tokens stems tokens) t
       = card {s \<in> set stems. last_match s tokens = Some t}"
    by (rule count_potential_tokens)
  have two: "2 \<le> count_list (potential_tokens stems tokens) t"
    unfolding n using assms(2-6) by (rule two_stems)
  have r: "fst (scrape_ebi_ids e tokens stems w)
       = Inr (concat (map (token_accessions e stems) (potential_tokens stems tokens)))"
    using scan_tokens_fst [OF assms(1), of "potential_tokens stems tokens" stems "[]" w]
    by (simp add: scrape_ebi_ids_def token_accessions_def [abs_def])
  have d: "2 * count_list (token_accessions e stems t) a
         \<le> count_list (concat (map (token_accessions e stems) (potential_tokens stems tokens))) a"
    for a
  proof -
    have "2 * count_list (token_accessions e stems t) a
        \<le> count_list (potential_tokens stems tokens) t * count_list (token_accessions e stems t) a"
      using two by (simp add: mult_le_mono1)
    also have "\<dots> \<le> count_list (concat (map (token_accessions e stems)
        (potential_tokens stems tokens))) a"
      by (rule count_list_concat_ge)
    finally show ?thesis .
  qed
  show ?thesis using n two r d by blast
qed

theorem scrape_ebi_ids_duplicates_witness:
  "2 \<le> count_list (potential_tokens default_stems [''PRJEB123456ERP654321'']) ''PRJEB123456ERP654321''
   \<and> fst (scrape_ebi_ids env_up [''PRJEB123456ERP654321''] default_stems world0)
       = Inr [''PRJEB123456ERP654321'', ''ERP654321'', ''PRJEB123456ERP654321'', ''ERP654321'']"
proof -
  have a: "answers env_up"
    by (simp add: answers_def env_up_def)
  have m: "''PRJEB'' \<in> set default_stems" "''ERP'' \<in> set default_stems" "''PRJEB'' \<noteq> ''ERP''"
    by (simp_all add: default_stems_def)
  have l: "last_match ''PRJEB'' [''PRJEB123456ERP654321''] = Some ''PRJEB123456ERP654321''"
    "last_match ''ERP'' [''PRJEB123456ERP654321''] = Some ''PRJEB123456ERP654321''"
    by code_simp+
  have c: "concat (map (token_accessions env_up default_stems)
            (potential_tokens default_stems [''PRJEB123456ERP654321'']))
       = [''PRJEB123456ERP654321'', ''ERP654321'', ''PRJEB123456ERP654321'', ''ERP654321'']"
    by code_simp
  show ?thesis
    using scrape_ebi_ids_duplicates [OF a m l, of world0] c
    by simp
qed

end
